theory Spec2Isabelle
  imports Main "HOL-Library.Word"
begin

unbundle bit_operations_syntax

section \<open>Machine integers\<close>

text \<open>
  The waiter works on Qt's fixed-width integers. \<open>int32\<close> values are 32-bit words read
  in two's complement: comparisons on them are the signed ones (\<open><=s\<close>, \<open><s\<close>) and
  \<open>+\<close> wraps. \<open>uint32\<close> and \<open>uint64\<close> are words read unsigned (\<open>\<le>\<close>, \<open><\<close>).
\<close>

type_synonym int32 = "32 word"
type_synonym uint32 = "32 word"
type_synonym uint64 = "64 word"

text \<open>Qt's \<open>qMax(a, b)\<close> is \<open>(a < b) ? b : a\<close>, here on \<open>int32\<close>.\<close>

definition qMax :: "int32 \<Rightarrow> int32 \<Rightarrow> int32" where
  "qMax a b = (if a <s b then b else a)"

section \<open>QMap: an ordered map with unique keys\<close>

text \<open>
  A \<open>QMap<K, V>\<close> is kept as the list of its entries in ascending key order, which is the
  order its iterators visit. \<open>insert\<close> replaces the value of a key that is present.
  \<open>value(key)\<close> returns a default-constructed \<open>V\<close> for an absent key: that is \<open>None\<close>.
\<close>

type_synonym ('k, 'v) QMap = "('k \<times> 'v) list"

fun qmap_insert :: "'k::linorder \<Rightarrow> 'v \<Rightarrow> ('k, 'v) QMap \<Rightarrow> ('k, 'v) QMap" where
  "qmap_insert k v [] = [(k, v)]"
| "qmap_insert k v ((k', v') # m) =
     (if k < k' then (k, v) # (k', v') # m
      else if k = k' then (k, v) # m
      else (k', v') # qmap_insert k v m)"

definition qmap_value :: "('k, 'v) QMap \<Rightarrow> 'k \<Rightarrow> 'v option" where
  "qmap_value m k = map_of m k"

section \<open>The waiter's state and its collaborators\<close>

datatype PtsSkippedQueue = SkippedUpdate | SkippedUpdates

text \<open>
  The two entry points of the external applier, \<open>Auth().api()\<close>. The payload types
  \<open>MTPUpdate\<close> (\<open>'u\<close>) and \<open>MTPUpdates\<close> (\<open>'us\<close>) are opaque. A call made from the
  queue carries what \<open>QMap::value\<close> returned.
\<close>

datatype ('u, 'us) api_call =
    applyUpdateNoPtsCheck "'u option"
  | applyUpdatesNoPtsCheck "'us option"

text \<open>
  What the waiter reads from its surroundings: whether \<open>App::main()\<close> is non-null, and
  the constant \<open>WaitForSkippedTimeout\<close>, which is declared outside this file.
\<close>

record Env =
  main_exists :: bool
  WaitForSkippedTimeout :: int32

text \<open>
  The fields of \<open>PtsWaiter\<close> (\<open>_good\<close>, \<open>_last\<close>, \<open>_count\<close>, ...). The field
  \<open>initialized\<close> stands for what \<open>inited()\<close> reads. \<open>api_log\<close> and \<open>timer_log\<close>
  record, in call order, the calls made to the applier and the arguments \<open>ms\<close> of the
  calls \<open>App::main()->ptsWaiterStartTimerFor(channel, ms)\<close>.
\<close>

record ('u, 'us) PtsWaiter =
  queue :: "(uint64, PtsSkippedQueue) QMap"
  updateQueue :: "(uint64, 'u) QMap"
  updatesQueue :: "(uint64, 'us) QMap"
  good :: int32
  last_v :: int32
  count_v :: int32
  applySkippedLevel :: int32
  requesting :: bool
  waitingForSkipped :: bool
  waitingForShortPoll :: bool
  skippedKey :: uint32
  initialized :: bool
  api_log :: "('u, 'us) api_call list"
  timer_log :: "int32 list"

section \<open>Helpers declared in the header\<close>

text \<open>
  Modelled from the spec: \<open>inited()\<close> is defined in the class declaration, which is not
  part of the sources. The spec keeps a Boolean \<open>initialized\<close>, false until the first
  processed update.
\<close>

definition inited :: "('u, 'us) PtsWaiter \<Rightarrow> bool" where
  "inited s = initialized s"

text \<open>
  Modelled from the spec: \<open>init(pts)\<close> is defined in the class declaration, which is not
  part of the sources. The spec's gap check says:
  \<open>confirmed = lastSeen = pts; initialized = true\<close>.
\<close>

definition init :: "('u, 'us) PtsWaiter \<Rightarrow> int32 \<Rightarrow> ('u, 'us) PtsWaiter" where
  "init s pts = s\<lparr>good := pts, last_v := pts, initialized := True\<rparr>"

section \<open>The operations of \<open>PtsWaiter\<close>\<close>

text \<open>The packed key: \<open>uint64(uint32(pts)) << 32 | counter\<close>.\<close>

definition mk_key :: "int32 \<Rightarrow> uint32 \<Rightarrow> uint64" where
  "mk_key pts c = push_bit 32 (ucast pts :: uint64) OR (ucast c :: uint64)"

text \<open>\<open>ptsKey\<close> pre-increments \<open>_skippedKey\<close>, inserts into \<open>_queue\<close>, returns the key.\<close>

definition ptsKey ::
  "('u, 'us) PtsWaiter \<Rightarrow> PtsSkippedQueue \<Rightarrow> int32 \<Rightarrow> uint64 \<times> ('u, 'us) PtsWaiter" where
  "ptsKey s q pts =
     (let c = skippedKey s + 1;
          k = mk_key pts c
      in (k, s\<lparr>skippedKey := c, queue := qmap_insert k q (queue s)\<rparr>))"

definition ptsWaiterStartTimerFor ::
  "Env \<Rightarrow> ('u, 'us) PtsWaiter \<Rightarrow> int32 \<Rightarrow> ('u, 'us) PtsWaiter" where
  "ptsWaiterStartTimerFor e s ms =
     (if main_exists e then s\<lparr>timer_log := timer_log s @ [ms]\<rparr> else s)"

definition checkForWaiting :: "Env \<Rightarrow> ('u, 'us) PtsWaiter \<Rightarrow> ('u, 'us) PtsWaiter" where
  "checkForWaiting e s =
     (if \<not> waitingForSkipped s \<and> \<not> waitingForShortPoll s \<and> main_exists e
      then s\<lparr>timer_log := timer_log s @ [- 1]\<rparr>
      else s)"

definition setWaitingForSkipped ::
  "Env \<Rightarrow> ('u, 'us) PtsWaiter \<Rightarrow> int32 \<Rightarrow> ('u, 'us) PtsWaiter" where
  "setWaitingForSkipped e s ms =
     (if 0 <=s ms
      then (ptsWaiterStartTimerFor e s ms)\<lparr>waitingForSkipped := True\<rparr>
      else checkForWaiting e (s\<lparr>waitingForSkipped := False\<rparr>))"

definition setWaitingForShortPoll ::
  "Env \<Rightarrow> ('u, 'us) PtsWaiter \<Rightarrow> int32 \<Rightarrow> ('u, 'us) PtsWaiter" where
  "setWaitingForShortPoll e s ms =
     (if 0 <=s ms
      then (ptsWaiterStartTimerFor e s ms)\<lparr>waitingForShortPoll := True\<rparr>
      else checkForWaiting e (s\<lparr>waitingForShortPoll := False\<rparr>))"

definition clearSkippedUpdates :: "('u, 'us) PtsWaiter \<Rightarrow> ('u, 'us) PtsWaiter" where
  "clearSkippedUpdates s =
     s\<lparr>queue := [], updateQueue := [], updatesQueue := [], applySkippedLevel := 0\<rparr>"

text \<open>
  The call the loop of \<open>applySkippedUpdates\<close> makes for one entry of \<open>_queue\<close>, and the
  loop body, which hands it to the applier.
\<close>

definition entry_call ::
  "('u, 'us) PtsWaiter \<Rightarrow> uint64 \<times> PtsSkippedQueue \<Rightarrow> ('u, 'us) api_call" where
  "entry_call s i =
     (case snd i of
        SkippedUpdate \<Rightarrow> applyUpdateNoPtsCheck (qmap_value (updateQueue s) (fst i))
      | SkippedUpdates \<Rightarrow> applyUpdatesNoPtsCheck (qmap_value (updatesQueue s) (fst i)))"

definition apply_entry ::
  "('u, 'us) PtsWaiter \<Rightarrow> uint64 \<times> PtsSkippedQueue \<Rightarrow> ('u, 'us) PtsWaiter" where
  "apply_entry s i = s\<lparr>api_log := api_log s @ [entry_call s i]\<rparr>"

definition applySkippedUpdates :: "Env \<Rightarrow> ('u, 'us) PtsWaiter \<Rightarrow> ('u, 'us) PtsWaiter" where
  "applySkippedUpdates e s =
     (if \<not> waitingForSkipped s then s
      else
        let s1 = setWaitingForSkipped e s (- 1) in
        if queue s1 = [] then s1
        else
          let s2 = s1\<lparr>applySkippedLevel := applySkippedLevel s1 + 1\<rparr>;
              s3 = foldl apply_entry s2 (queue s2);
              s4 = s3\<lparr>applySkippedLevel := applySkippedLevel s3 - 1\<rparr>
          in clearSkippedUpdates s4)"

text \<open>
  The statements \<open>_updateQueue.insert(ptsKey(SkippedUpdate, pts), update)\<close> and
  \<open>_updatesQueue.insert(ptsKey(SkippedUpdates, pts), updates)\<close>: the key is made first,
  which enters it in \<open>_queue\<close>, and the payload is stored under it.
\<close>

definition insert_MTPUpdate ::
  "('u, 'us) PtsWaiter \<Rightarrow> int32 \<Rightarrow> 'u \<Rightarrow> ('u, 'us) PtsWaiter" where
  "insert_MTPUpdate s pts update =
     (let (k, s1) = ptsKey s SkippedUpdate pts
      in s1\<lparr>updateQueue := qmap_insert k update (updateQueue s1)\<rparr>)"

definition insert_MTPUpdates ::
  "('u, 'us) PtsWaiter \<Rightarrow> int32 \<Rightarrow> 'us \<Rightarrow> ('u, 'us) PtsWaiter" where
  "insert_MTPUpdates s pts updates =
     (let (k, s1) = ptsKey s SkippedUpdates pts
      in s1\<lparr>updatesQueue := qmap_insert k updates (updatesQueue s1)\<rparr>)"

text \<open>The gap check. It returns false if the update has to be saved and applied later.\<close>

definition check ::
  "Env \<Rightarrow> ('u, 'us) PtsWaiter \<Rightarrow> int32 \<Rightarrow> int32 \<Rightarrow> bool \<times> ('u, 'us) PtsWaiter" where
  "check e s pts cnt =
     (if \<not> inited s then (True, init s pts)
      else
        let s1 = s\<lparr>last_v := qMax (last_v s) pts\<rparr>;
            s2 = s1\<lparr>count_v := count_v s1 + cnt\<rparr>
        in
          if last_v s2 = count_v s2 then (True, s2\<lparr>good := last_v s2\<rparr>)
          else
            let s3 = (if last_v s2 <s count_v s2
                      then setWaitingForSkipped e s2 1
                      else setWaitingForSkipped e s2 (WaitForSkippedTimeout e))
            in (cnt = 0, s3))"

text \<open>The three overloads of \<open>updated\<close>: with \<open>MTPUpdates\<close>, with \<open>MTPUpdate\<close>, without payload.\<close>

definition updated_MTPUpdates ::
  "Env \<Rightarrow> ('u, 'us) PtsWaiter \<Rightarrow> int32 \<Rightarrow> int32 \<Rightarrow> 'us \<Rightarrow> bool \<times> ('u, 'us) PtsWaiter" where
  "updated_MTPUpdates e s pts cnt updates =
     (if requesting s \<or> applySkippedLevel s \<noteq> 0 then (True, s)
      else if pts <=s good s \<and> 0 <s cnt then (False, s)
      else
        let (ok, s1) = check e s pts cnt in
        if ok then (True, s1)
        else (False, insert_MTPUpdates s1 pts updates))"

definition updated_MTPUpdate ::
  "Env \<Rightarrow> ('u, 'us) PtsWaiter \<Rightarrow> int32 \<Rightarrow> int32 \<Rightarrow> 'u \<Rightarrow> bool \<times> ('u, 'us) PtsWaiter" where
  "updated_MTPUpdate e s pts cnt update =
     (if requesting s \<or> applySkippedLevel s \<noteq> 0 then (True, s)
      else if pts <=s good s \<and> 0 <s cnt then (False, s)
      else
        let (ok, s1) = check e s pts cnt in
        if ok then (True, s1)
        else (False, insert_MTPUpdate s1 pts update))"

definition updated ::
  "Env \<Rightarrow> ('u, 'us) PtsWaiter \<Rightarrow> int32 \<Rightarrow> int32 \<Rightarrow> bool \<times> ('u, 'us) PtsWaiter" where
  "updated e s pts cnt =
     (if requesting s \<or> applySkippedLevel s \<noteq> 0 then (True, s)
      else if pts <=s good s \<and> 0 <s cnt then (False, s)
      else check e s pts cnt)"

text \<open>The three overloads of \<open>updateAndApply\<close>, in the same order.\<close>

definition updateAndApply_MTPUpdates ::
  "Env \<Rightarrow> ('u, 'us) PtsWaiter \<Rightarrow> int32 \<Rightarrow> int32 \<Rightarrow> 'us \<Rightarrow> bool \<times> ('u, 'us) PtsWaiter" where
  "updateAndApply_MTPUpdates e s pts cnt updates =
     (let (ok, s1) = updated_MTPUpdates e s pts cnt updates in
      if \<not> ok then (False, s1)
      else if \<not> waitingForSkipped s1 \<or> queue s1 = []
      then (True, s1\<lparr>api_log := api_log s1 @ [applyUpdatesNoPtsCheck (Some updates)]\<rparr>)
      else (True, applySkippedUpdates e (insert_MTPUpdates s1 pts updates)))"

definition updateAndApply_MTPUpdate ::
  "Env \<Rightarrow> ('u, 'us) PtsWaiter \<Rightarrow> int32 \<Rightarrow> int32 \<Rightarrow> 'u \<Rightarrow> bool \<times> ('u, 'us) PtsWaiter" where
  "updateAndApply_MTPUpdate e s pts cnt update =
     (let (ok, s1) = updated_MTPUpdate e s pts cnt update in
      if \<not> ok then (False, s1)
      else if \<not> waitingForSkipped s1 \<or> queue s1 = []
      then (True, s1\<lparr>api_log := api_log s1 @ [applyUpdateNoPtsCheck (Some update)]\<rparr>)
      else (True, applySkippedUpdates e (insert_MTPUpdate s1 pts update)))"

definition updateAndApply ::
  "Env \<Rightarrow> ('u, 'us) PtsWaiter \<Rightarrow> int32 \<Rightarrow> int32 \<Rightarrow> bool \<times> ('u, 'us) PtsWaiter" where
  "updateAndApply e s pts cnt =
     (let (ok, s1) = updated e s pts cnt in
      if \<not> ok then (False, s1)
      else (True, applySkippedUpdates e s1))"

text \<open>
  The states in which the loop of \<open>applySkippedUpdates\<close> calls the applier, one for each
  entry of the queue: the flag is cancelled, the level is raised, and the entries before
  the current one have been applied. A call that re-enters the waiter from the applier
  finds the waiter in one of these.
\<close>

definition flush_states :: "Env \<Rightarrow> ('u, 'us) PtsWaiter \<Rightarrow> ('u, 'us) PtsWaiter list" where
  "flush_states e s =
     (if \<not> waitingForSkipped s then []
      else
        let s1 = setWaitingForSkipped e s (- 1) in
        if queue s1 = [] then []
        else
          let s2 = s1\<lparr>applySkippedLevel := applySkippedLevel s1 + 1\<rparr>
          in map (\<lambda>n. foldl apply_entry s2 (take n (queue s2))) [0..<length (queue s2)])"

text \<open>Whether a call to the applier carries a payload that was stored, not a default one.\<close>

fun has_payload :: "('u, 'us) api_call \<Rightarrow> bool" where
  "has_payload (applyUpdateNoPtsCheck p) = (p \<noteq> None)"
| "has_payload (applyUpdatesNoPtsCheck p) = (p \<noteq> None)"


section \<open>Sequences of calls\<close>

text \<open>
  The public operations as data, so that a history of the waiter is a list of calls.
  \<open>exec\<close> runs one call and keeps the state; \<open>run\<close> runs a history from left to right.
\<close>

datatype ('u, 'us) call =
    Updated_MTPUpdates int32 int32 'us
  | Updated_MTPUpdate int32 int32 'u
  | Updated int32 int32
  | UpdateAndApply_MTPUpdates int32 int32 'us
  | UpdateAndApply_MTPUpdate int32 int32 'u
  | UpdateAndApply int32 int32
  | ApplySkippedUpdates
  | ClearSkippedUpdates
  | SetWaitingForSkipped int32
  | SetWaitingForShortPoll int32

fun exec :: "Env \<Rightarrow> ('u, 'us) call \<Rightarrow> ('u, 'us) PtsWaiter \<Rightarrow> ('u, 'us) PtsWaiter" where
  "exec e (Updated_MTPUpdates pts cnt us) s = snd (updated_MTPUpdates e s pts cnt us)"
| "exec e (Updated_MTPUpdate pts cnt u) s = snd (updated_MTPUpdate e s pts cnt u)"
| "exec e (Updated pts cnt) s = snd (updated e s pts cnt)"
| "exec e (UpdateAndApply_MTPUpdates pts cnt us) s = snd (updateAndApply_MTPUpdates e s pts cnt us)"
| "exec e (UpdateAndApply_MTPUpdate pts cnt u) s = snd (updateAndApply_MTPUpdate e s pts cnt u)"
| "exec e (UpdateAndApply pts cnt) s = snd (updateAndApply e s pts cnt)"
| "exec e ApplySkippedUpdates s = applySkippedUpdates e s"
| "exec e ClearSkippedUpdates s = clearSkippedUpdates s"
| "exec e (SetWaitingForSkipped ms) s = setWaitingForSkipped e s ms"
| "exec e (SetWaitingForShortPoll ms) s = setWaitingForShortPoll e s ms"

definition run :: "Env \<Rightarrow> ('u, 'us) call list \<Rightarrow> ('u, 'us) PtsWaiter \<Rightarrow> ('u, 'us) PtsWaiter" where
  "run e cs s = fold (exec e) cs s"

text \<open>The ingest operations and the flush, as opposed to resets and flag changes.\<close>

fun ingest_or_flush :: "('u, 'us) call \<Rightarrow> bool" where
  "ingest_or_flush ClearSkippedUpdates = False"
| "ingest_or_flush (SetWaitingForSkipped ms) = False"
| "ingest_or_flush (SetWaitingForShortPoll ms) = False"
| "ingest_or_flush c = True"

section \<open>Concrete states used in examples\<close>

text \<open>
  An environment with a main widget and a gap timeout of one second; a waiter that has
  seen nothing; and a waiter whose baseline is 100 with nothing outstanding. Payloads
  are natural numbers in the examples.
\<close>

definition example_env :: Env where
  "example_env = \<lparr>main_exists = True, WaitForSkippedTimeout = 1000\<rparr>"

definition fresh_waiter :: "(nat, nat) PtsWaiter" where
  "fresh_waiter =
     \<lparr>queue = [], updateQueue = [], updatesQueue = [], good = 0, last_v = 0, count_v = 0,
      applySkippedLevel = 0, requesting = False, waitingForSkipped = False,
      waitingForShortPoll = False, skippedKey = 0, initialized = False,
      api_log = [], timer_log = []\<rparr>"

definition synced_waiter :: "(nat, nat) PtsWaiter" where
  "synced_waiter =
     fresh_waiter\<lparr>good := 100, last_v := 100, count_v := 100, initialized := True\<rparr>"

text \<open>
  A waiter in a gap: baseline 100, an update with pts 110 buffered under key
  \<open>(110, 1)\<close>, and both waiting flags set.
\<close>

definition waiting_waiter :: "(nat, nat) PtsWaiter" where
  "waiting_waiter =
     synced_waiter\<lparr>last_v := 110, count_v := 105, waitingForSkipped := True,
       waitingForShortPoll := True, skippedKey := 1,
       queue := [(mk_key 110 1, SkippedUpdate)], updateQueue := [(mk_key 110 1, 7)]\<rparr>"

text \<open>The settled waiter while an external resync request is in flight.\<close>

definition resyncing_waiter :: "(nat, nat) PtsWaiter" where
  "resyncing_waiter = synced_waiter\<lparr>requesting := True\<rparr>"

text \<open>The gap state as the loop of a flush sees it at its only entry.\<close>

definition flushing_waiter :: "(nat, nat) PtsWaiter" where
  "flushing_waiter = waiting_waiter\<lparr>waitingForSkipped := False, applySkippedLevel := 1\<rparr>"

text \<open>
  A history on the untouched waiter: the baseline (100), a jump ahead that is buffered
  (110), a stale batch (90), a poll timer, the update that closes the gap (105), a reset
  and a flush.
\<close>

definition gap_then_fill :: "(nat, nat) call list" where
  "gap_then_fill =
     [UpdateAndApply_MTPUpdate 100 5 1,
      UpdateAndApply_MTPUpdate 110 5 2,
      UpdateAndApply_MTPUpdates 90 1 3,
      SetWaitingForShortPoll 1000,
      UpdateAndApply_MTPUpdate 105 105 4,
      ClearSkippedUpdates,
      ApplySkippedUpdates]"


text \<open>
  A history of ingest calls on the untouched waiter that ends with the gap closed and
  two entries still buffered: the baseline (100), two jumps ahead (110, 120), and an
  update without payload that brings the count up to the highest pts.
\<close>

definition gap_closed_history :: "(nat, nat) call list" where
  "gap_closed_history =
     [UpdateAndApply_MTPUpdate 100 5 1,
      Updated_MTPUpdate 110 5 2,
      Updated_MTPUpdates 120 5 3,
      Updated 115 110]"





section \<open>Basic facts about the operations\<close>

lemma not_0_sle_m1: "\<not> (0 <=s (- 1 :: int32))"
  by (simp add: word_sle_eq)

lemma sle_0_1: "0 <=s (1 :: int32)"
  by (simp add: word_sle_eq)

lemma entry_call_same_payloads:
  "updateQueue t = updateQueue s \<Longrightarrow> updatesQueue t = updatesQueue s \<Longrightarrow>
   entry_call t = entry_call s"
  by (rule ext) (simp add: entry_call_def split: PtsSkippedQueue.split)

text \<open>The loop of the flush appends one applier call per entry, in the map's order.\<close>

lemma foldl_apply_entry:
  "foldl apply_entry s xs = s\<lparr>api_log := api_log s @ map (entry_call s) xs\<rparr>"
proof (induction xs arbitrary: s)
  case Nil
  show ?case by simp
next
  case (Cons x xs)
  have "entry_call (apply_entry s x) = entry_call s"
    by (rule entry_call_same_payloads) (simp_all add: apply_entry_def)
  with Cons show ?case by (simp add: apply_entry_def)
qed

lemma setWaitingForSkipped_cancel:
  "setWaitingForSkipped e s (- 1) =
     (s\<lparr>waitingForSkipped := False\<rparr>)
       \<lparr>timer_log := timer_log s @ (if \<not> waitingForShortPoll s \<and> main_exists e then [- 1] else [])\<rparr>"
  by (simp add: setWaitingForSkipped_def checkForWaiting_def not_0_sle_m1)

lemma applySkippedUpdates_idle:
  "\<not> waitingForSkipped s \<Longrightarrow> applySkippedUpdates e s = s"
  by (simp add: applySkippedUpdates_def)

lemma applySkippedUpdates_empty:
  "waitingForSkipped s \<Longrightarrow> queue s = [] \<Longrightarrow>
   applySkippedUpdates e s = setWaitingForSkipped e s (- 1)"
  by (simp add: applySkippedUpdates_def setWaitingForSkipped_cancel Let_def)

lemma applySkippedUpdates_drain:
  "waitingForSkipped s \<Longrightarrow> queue s \<noteq> [] \<Longrightarrow>
   applySkippedUpdates e s =
     s\<lparr>queue := [], updateQueue := [], updatesQueue := [], applySkippedLevel := 0,
       waitingForSkipped := False,
       api_log := api_log s @ map (entry_call s) (queue s),
       timer_log := timer_log s @ (if \<not> waitingForShortPoll s \<and> main_exists e then [- 1] else [])\<rparr>"
proof -
  have ec: "entry_call (s\<lparr>waitingForSkipped := False, timer_log := t, applySkippedLevel := l\<rparr>) = entry_call s" for t l
    by (rule entry_call_same_payloads) simp_all
  assume "waitingForSkipped s" "queue s \<noteq> []"
  then show ?thesis
    by (simp add: applySkippedUpdates_def setWaitingForSkipped_cancel Let_def
        foldl_apply_entry clearSkippedUpdates_def ec)
qed

section \<open>C8: what \<open>clearSkippedUpdates\<close> resets\<close>

text \<open>
  C8, as the code has it: \<open>clearSkippedUpdates\<close> empties the three queues and zeroes
  \<open>_applySkippedLevel\<close>; it leaves both waiting flags, \<open>_good\<close>, \<open>_last\<close>, \<open>_count\<close>
  and every other field as they were.
\<close>

theorem clearSkippedUpdates_frame:
  "queue (clearSkippedUpdates s) = [] \<and>
   updateQueue (clearSkippedUpdates s) = [] \<and>
   updatesQueue (clearSkippedUpdates s) = [] \<and>
   applySkippedLevel (clearSkippedUpdates s) = 0 \<and>
   waitingForSkipped (clearSkippedUpdates s) = waitingForSkipped s \<and>
   waitingForShortPoll (clearSkippedUpdates s) = waitingForShortPoll s \<and>
   good (clearSkippedUpdates s) = good s \<and>
   last_v (clearSkippedUpdates s) = last_v s \<and>
   count_v (clearSkippedUpdates s) = count_v s \<and>
   initialized (clearSkippedUpdates s) = initialized s \<and>
   requesting (clearSkippedUpdates s) = requesting s \<and>
   skippedKey (clearSkippedUpdates s) = skippedKey s \<and>
   api_log (clearSkippedUpdates s) = api_log s \<and>
   timer_log (clearSkippedUpdates s) = timer_log s"
  by (simp add: clearSkippedUpdates_def)

text \<open>
  C8 as stated says that both waiting flags are cleared. In a state where both are set
  they are still set after the reset.
\<close>

theorem clearSkippedUpdates_keeps_flags_counterexample:
  "waitingForSkipped waiting_waiter \<and> waitingForShortPoll waiting_waiter \<and>
   waitingForSkipped (clearSkippedUpdates waiting_waiter) \<and>
   waitingForShortPoll (clearSkippedUpdates waiting_waiter)"
  by (simp add: clearSkippedUpdates_def waiting_waiter_def)

section \<open>C2: when a flush proceeds\<close>

text \<open>
  C2, as the code has it: \<open>applySkippedUpdates\<close> does nothing unless \<open>_waitingForSkipped\<close>
  is set. When it is set, the flush clears that flag itself, sends the cancel sentinel
  \<open>-1\<close> to the timer exactly when \<open>_waitingForShortPoll\<close> is clear too (and the main
  widget exists), and then applies the whole queue, whatever \<open>_waitingForShortPoll\<close> is.
  Cancelling either reason with a negative delay clears that flag, sends \<open>-1\<close> exactly
  when no reason remains, and neither applies nor removes anything.
\<close>

theorem flush_guarded_by_gap_flag:
  "(\<not> waitingForSkipped s \<longrightarrow> applySkippedUpdates e s = s) \<and>
   (waitingForSkipped s \<longrightarrow>
      \<not> waitingForSkipped (applySkippedUpdates e s) \<and>
      waitingForShortPoll (applySkippedUpdates e s) = waitingForShortPoll s \<and>
      timer_log (applySkippedUpdates e s) =
        timer_log s @ (if \<not> waitingForShortPoll s \<and> main_exists e then [- 1] else []) \<and>
      api_log (applySkippedUpdates e s) = api_log s @ map (entry_call s) (queue s) \<and>
      queue (applySkippedUpdates e s) = []) \<and>
   (ms <s 0 \<longrightarrow>
      \<not> waitingForSkipped (setWaitingForSkipped e s ms) \<and>
      waitingForShortPoll (setWaitingForSkipped e s ms) = waitingForShortPoll s \<and>
      timer_log (setWaitingForSkipped e s ms) =
        timer_log s @ (if \<not> waitingForShortPoll s \<and> main_exists e then [- 1] else []) \<and>
      api_log (setWaitingForSkipped e s ms) = api_log s \<and>
      queue (setWaitingForSkipped e s ms) = queue s) \<and>
   (ms <s 0 \<longrightarrow>
      \<not> waitingForShortPoll (setWaitingForShortPoll e s ms) \<and>
      waitingForSkipped (setWaitingForShortPoll e s ms) = waitingForSkipped s \<and>
      timer_log (setWaitingForShortPoll e s ms) =
        timer_log s @ (if \<not> waitingForSkipped s \<and> main_exists e then [- 1] else []) \<and>
      api_log (setWaitingForShortPoll e s ms) = api_log s \<and>
      queue (setWaitingForShortPoll e s ms) = queue s)"
proof -
  have idle: "\<not> waitingForSkipped s \<longrightarrow> applySkippedUpdates e s = s"
    by (simp add: applySkippedUpdates_idle)
  have flush: "waitingForSkipped s \<longrightarrow>
      \<not> waitingForSkipped (applySkippedUpdates e s) \<and>
      waitingForShortPoll (applySkippedUpdates e s) = waitingForShortPoll s \<and>
      timer_log (applySkippedUpdates e s) =
        timer_log s @ (if \<not> waitingForShortPoll s \<and> main_exists e then [- 1] else []) \<and>
      api_log (applySkippedUpdates e s) = api_log s @ map (entry_call s) (queue s) \<and>
      queue (applySkippedUpdates e s) = []"
  proof (cases "queue s = []")
    case True
    then show ?thesis
      by (simp add: applySkippedUpdates_empty setWaitingForSkipped_cancel)
  next
    case False
    then show ?thesis
      by (simp add: applySkippedUpdates_drain)
  qed
  have neg: "ms <s 0 \<Longrightarrow> \<not> 0 <=s ms"
    using signed.not_le by blast
  have c1: "ms <s 0 \<longrightarrow>
      \<not> waitingForSkipped (setWaitingForSkipped e s ms) \<and>
      waitingForShortPoll (setWaitingForSkipped e s ms) = waitingForShortPoll s \<and>
      timer_log (setWaitingForSkipped e s ms) =
        timer_log s @ (if \<not> waitingForShortPoll s \<and> main_exists e then [- 1] else []) \<and>
      api_log (setWaitingForSkipped e s ms) = api_log s \<and>
      queue (setWaitingForSkipped e s ms) = queue s"
    by (simp add: setWaitingForSkipped_def checkForWaiting_def neg)
  have c2: "ms <s 0 \<longrightarrow>
      \<not> waitingForShortPoll (setWaitingForShortPoll e s ms) \<and>
      waitingForSkipped (setWaitingForShortPoll e s ms) = waitingForSkipped s \<and>
      timer_log (setWaitingForShortPoll e s ms) =
        timer_log s @ (if \<not> waitingForSkipped s \<and> main_exists e then [- 1] else []) \<and>
      api_log (setWaitingForShortPoll e s ms) = api_log s \<and>
      queue (setWaitingForShortPoll e s ms) = queue s"
    by (simp add: setWaitingForShortPoll_def checkForWaiting_def neg)
  from idle flush c1 c2 show ?thesis by blast
qed

text \<open>
  The theorem at two states: in the gap state the flush applies the buffered payload and
  a cancellation sends no sentinel, the other reason being set; in the settled state
  the flush changes nothing and a cancellation sends \<open>-1\<close>.
\<close>

theorem flush_guarded_by_gap_flag_witness:
  "waitingForSkipped waiting_waiter \<and> (- 1 :: int32) <s 0 \<and>
   \<not> waitingForSkipped (applySkippedUpdates example_env waiting_waiter) \<and>
   api_log (applySkippedUpdates example_env waiting_waiter) = [applyUpdateNoPtsCheck (Some 7)] \<and>
   timer_log (setWaitingForSkipped example_env waiting_waiter (- 1)) = [] \<and>
   \<not> waitingForSkipped synced_waiter \<and>
   applySkippedUpdates example_env synced_waiter = synced_waiter \<and>
   timer_log (setWaitingForShortPoll example_env synced_waiter (- 1)) = [- 1]"
proof -
  have w: "waitingForSkipped waiting_waiter" by code_simp
  have n: "(- 1 :: int32) <s 0" by code_simp
  have i: "\<not> waitingForSkipped synced_waiter" by code_simp
  have q: "api_log waiting_waiter @ map (entry_call waiting_waiter) (queue waiting_waiter)
       = [applyUpdateNoPtsCheck (Some 7)]" by code_simp
  have p: "waitingForShortPoll waiting_waiter" "timer_log waiting_waiter = []"
     "\<not> waitingForShortPoll synced_waiter" "timer_log synced_waiter = []"
     "main_exists example_env" by code_simp+
  show ?thesis
    using flush_guarded_by_gap_flag [of waiting_waiter example_env "- 1"]
      flush_guarded_by_gap_flag [of synced_waiter example_env "- 1"] w n i q p
    by simp
qed

text \<open>
  C2 as stated says that draining happens only when both reasons are clear. With both
  flags set and one entry buffered, the flush applies the entry and empties the queue,
  and \<open>_waitingForShortPoll\<close> is still set afterwards.
\<close>

theorem flush_ignores_poll_flag_counterexample:
  "waitingForSkipped waiting_waiter \<and> waitingForShortPoll waiting_waiter \<and>
   queue waiting_waiter \<noteq> [] \<and>
   queue (applySkippedUpdates example_env waiting_waiter) = [] \<and>
   api_log (applySkippedUpdates example_env waiting_waiter) = [applyUpdateNoPtsCheck (Some 7)] \<and>
   waitingForShortPoll (applySkippedUpdates example_env waiting_waiter)"
  by code_simp

lemma applySkippedUpdates_keeps_watermarks:
  "good (applySkippedUpdates e s) = good s \<and>
   last_v (applySkippedUpdates e s) = last_v s \<and>
   count_v (applySkippedUpdates e s) = count_v s \<and>
   initialized (applySkippedUpdates e s) = initialized s \<and>
   requesting (applySkippedUpdates e s) = requesting s \<and>
   skippedKey (applySkippedUpdates e s) = skippedKey s"
proof (cases "waitingForSkipped s")
  case False
  then show ?thesis by (simp add: applySkippedUpdates_idle)
next
  case True
  then show ?thesis
    by (cases "queue s = []")
      (simp_all add: applySkippedUpdates_empty applySkippedUpdates_drain setWaitingForSkipped_cancel)
qed

section \<open>C4: stale updates are dropped\<close>

text \<open>
  C4, as the code has it: in every state that is neither inside a flush
  (\<open>_applySkippedLevel\<close> is zero) nor requesting a resync (\<open>_requesting\<close> is false), an
  update with \<open>pts \<le> _good\<close> and \<open>count > 0\<close> is dropped by each overload of \<open>updated\<close>
  and of \<open>updateAndApply\<close>: the call returns false and the whole state, the applier's
  log included, is as before.
\<close>

theorem stale_update_discarded:
  assumes "\<not> requesting s" and "applySkippedLevel s = 0"
    and "pts <=s good s" and "0 <s cnt"
  shows "updated_MTPUpdates e s pts cnt us = (False, s) \<and>
         updated_MTPUpdate e s pts cnt u = (False, s) \<and>
         updated e s pts cnt = (False, s) \<and>
         updateAndApply_MTPUpdates e s pts cnt us = (False, s) \<and>
         updateAndApply_MTPUpdate e s pts cnt u = (False, s) \<and>
         updateAndApply e s pts cnt = (False, s)"
  using assms
  by (simp add: updated_MTPUpdates_def updated_MTPUpdate_def updated_def
      updateAndApply_MTPUpdates_def updateAndApply_MTPUpdate_def updateAndApply_def)

text \<open>The theorem at baseline 100 with an update of pts 90 and count 1.\<close>

theorem stale_update_discarded_witness:
  "\<not> requesting synced_waiter \<and> applySkippedLevel synced_waiter = 0 \<and>
   (90 :: int32) <=s good synced_waiter \<and> (0 :: int32) <s 1 \<and>
   updateAndApply_MTPUpdate example_env synced_waiter 90 1 7 = (False, synced_waiter) \<and>
   updated_MTPUpdates example_env synced_waiter 90 1 7 = (False, synced_waiter)"
proof -
  have h: "\<not> requesting synced_waiter" "applySkippedLevel synced_waiter = 0"
    "(90 :: int32) <=s good synced_waiter" "(0 :: int32) <s 1"
    by code_simp+
  show ?thesis
    using stale_update_discarded [OF h, of example_env 7 7] h by simp
qed

text \<open>
  C4 as stated asks only that the state is initialized and not inside a flush. With a
  resync request in flight, the same stale update is reported as applied, and
  \<open>updateAndApply\<close> hands it to the applier.
\<close>

theorem stale_update_applied_while_requesting_counterexample:
  "initialized resyncing_waiter \<and> applySkippedLevel resyncing_waiter = 0 \<and>
   (90 :: int32) <=s good resyncing_waiter \<and> (0 :: int32) <s 1 \<and>
   fst (updated_MTPUpdate example_env resyncing_waiter 90 1 7) \<and>
   fst (updateAndApply_MTPUpdate example_env resyncing_waiter 90 1 7) \<and>
   api_log (snd (updateAndApply_MTPUpdate example_env resyncing_waiter 90 1 7)) =
     [applyUpdateNoPtsCheck (Some 7)]"
  by code_simp

lemma map_of_qmap_insert: "map_of (qmap_insert k v m) k = Some v"
  by (induction m) auto






section \<open>C10: the first update\<close>

lemma updateAndApply_MTPUpdates_after_true:
  assumes "updated_MTPUpdates e s pts cnt us = (True, s1)"
  shows "fst (updateAndApply_MTPUpdates e s pts cnt us) \<and>
         good (snd (updateAndApply_MTPUpdates e s pts cnt us)) = good s1 \<and>
         last_v (snd (updateAndApply_MTPUpdates e s pts cnt us)) = last_v s1 \<and>
         count_v (snd (updateAndApply_MTPUpdates e s pts cnt us)) = count_v s1 \<and>
         initialized (snd (updateAndApply_MTPUpdates e s pts cnt us)) = initialized s1"
  using assms
  by (simp add: updateAndApply_MTPUpdates_def insert_MTPUpdates_def ptsKey_def Let_def
      applySkippedUpdates_keeps_watermarks)

lemma updateAndApply_MTPUpdate_after_true:
  assumes "updated_MTPUpdate e s pts cnt u = (True, s1)"
  shows "fst (updateAndApply_MTPUpdate e s pts cnt u) \<and>
         good (snd (updateAndApply_MTPUpdate e s pts cnt u)) = good s1 \<and>
         last_v (snd (updateAndApply_MTPUpdate e s pts cnt u)) = last_v s1 \<and>
         count_v (snd (updateAndApply_MTPUpdate e s pts cnt u)) = count_v s1 \<and>
         initialized (snd (updateAndApply_MTPUpdate e s pts cnt u)) = initialized s1"
  using assms
  by (simp add: updateAndApply_MTPUpdate_def insert_MTPUpdate_def ptsKey_def Let_def
      applySkippedUpdates_keeps_watermarks)

lemma updateAndApply_after_true:
  assumes "updated e s pts cnt = (True, s1)"
  shows "fst (updateAndApply e s pts cnt) \<and>
         good (snd (updateAndApply e s pts cnt)) = good s1 \<and>
         last_v (snd (updateAndApply e s pts cnt)) = last_v s1 \<and>
         count_v (snd (updateAndApply e s pts cnt)) = count_v s1 \<and>
         initialized (snd (updateAndApply e s pts cnt)) = initialized s1"
  using assms
  by (simp add: updateAndApply_def applySkippedUpdates_keeps_watermarks)

text \<open>
  C10, as the code has it: on an uninitialized state the gap check \<open>check\<close> accepts any
  \<open>pts\<close> and any \<open>count\<close>: it returns true, sets \<open>_good = _last = pts\<close> and marks the
  state initialized. An ingested update reaches the gap check, and is then reported as
  applied with that baseline, when no flush or resync is under way and it is not the case
  that \<open>pts \<le> _good\<close> and \<open>count > 0\<close>.
\<close>

theorem first_update_sets_baseline:
  assumes "\<not> inited s"
  shows
   "check e s pts cnt = (True, init s pts) \<and>
    good (init s pts) = pts \<and> last_v (init s pts) = pts \<and> inited (init s pts) \<and>
    (\<not> requesting s \<and> applySkippedLevel s = 0 \<and> \<not> (pts <=s good s \<and> 0 <s cnt) \<longrightarrow>
       updated_MTPUpdates e s pts cnt us = (True, init s pts) \<and>
       updated_MTPUpdate e s pts cnt u = (True, init s pts) \<and>
       updated e s pts cnt = (True, init s pts) \<and>
       fst (updateAndApply_MTPUpdates e s pts cnt us) \<and>
       good (snd (updateAndApply_MTPUpdates e s pts cnt us)) = pts \<and>
       last_v (snd (updateAndApply_MTPUpdates e s pts cnt us)) = pts \<and>
       inited (snd (updateAndApply_MTPUpdates e s pts cnt us)) \<and>
       fst (updateAndApply_MTPUpdate e s pts cnt u) \<and>
       good (snd (updateAndApply_MTPUpdate e s pts cnt u)) = pts \<and>
       last_v (snd (updateAndApply_MTPUpdate e s pts cnt u)) = pts \<and>
       inited (snd (updateAndApply_MTPUpdate e s pts cnt u)) \<and>
       fst (updateAndApply e s pts cnt) \<and>
       good (snd (updateAndApply e s pts cnt)) = pts \<and>
       last_v (snd (updateAndApply e s pts cnt)) = pts \<and>
       inited (snd (updateAndApply e s pts cnt)))"
proof -
  have c: "check e s pts cnt = (True, init s pts)"
    using assms by (simp add: check_def)
  have i: "good (init s pts) = pts \<and> last_v (init s pts) = pts \<and> inited (init s pts)"
    by (simp add: init_def inited_def)
  {
    assume g: "\<not> requesting s \<and> applySkippedLevel s = 0 \<and> \<not> (pts <=s good s \<and> 0 <s cnt)"
    have u1: "updated_MTPUpdates e s pts cnt us = (True, init s pts)"
      using g by (auto simp add: updated_MTPUpdates_def c)
    have u2: "updated_MTPUpdate e s pts cnt u = (True, init s pts)"
      using g by (auto simp add: updated_MTPUpdate_def c)
    have u3: "updated e s pts cnt = (True, init s pts)"
      using g by (auto simp add: updated_def c)
    note updateAndApply_MTPUpdates_after_true [OF u1]
      updateAndApply_MTPUpdate_after_true [OF u2] updateAndApply_after_true [OF u3]
    with u1 u2 u3 i have
      "updated_MTPUpdates e s pts cnt us = (True, init s pts) \<and>
       updated_MTPUpdate e s pts cnt u = (True, init s pts) \<and>
       updated e s pts cnt = (True, init s pts) \<and>
       fst (updateAndApply_MTPUpdates e s pts cnt us) \<and>
       good (snd (updateAndApply_MTPUpdates e s pts cnt us)) = pts \<and>
       last_v (snd (updateAndApply_MTPUpdates e s pts cnt us)) = pts \<and>
       inited (snd (updateAndApply_MTPUpdates e s pts cnt us)) \<and>
       fst (updateAndApply_MTPUpdate e s pts cnt u) \<and>
       good (snd (updateAndApply_MTPUpdate e s pts cnt u)) = pts \<and>
       last_v (snd (updateAndApply_MTPUpdate e s pts cnt u)) = pts \<and>
       inited (snd (updateAndApply_MTPUpdate e s pts cnt u)) \<and>
       fst (updateAndApply e s pts cnt) \<and>
       good (snd (updateAndApply e s pts cnt)) = pts \<and>
       last_v (snd (updateAndApply e s pts cnt)) = pts \<and>
       inited (snd (updateAndApply e s pts cnt))"
      by (simp add: inited_def)
  }
  with c i show ?thesis by blast
qed

text \<open>The theorem on the untouched waiter with pts 100 and count 5.\<close>

theorem first_update_sets_baseline_witness:
  "\<not> inited fresh_waiter \<and> \<not> requesting fresh_waiter \<and> applySkippedLevel fresh_waiter = 0 \<and>
   \<not> ((100 :: int32) <=s good fresh_waiter \<and> (0 :: int32) <s 5) \<and>
   check example_env fresh_waiter 100 5 = (True, init fresh_waiter 100) \<and>
   updated_MTPUpdate example_env fresh_waiter 100 5 7 = (True, init fresh_waiter 100) \<and>
   good (init fresh_waiter 100) = 100 \<and> last_v (init fresh_waiter 100) = 100 \<and>
   inited (init fresh_waiter 100)"
proof -
  have n: "\<not> inited fresh_waiter" by code_simp
  have h: "\<not> requesting fresh_waiter" "applySkippedLevel fresh_waiter = 0"
    "\<not> ((100 :: int32) <=s good fresh_waiter \<and> (0 :: int32) <s 5)"
    by code_simp+
  show ?thesis
    using first_update_sets_baseline [OF n, of example_env 100 5 7 7] n h by simp
qed

text \<open>
  C10 as stated promises the baseline for any pts and any count. \<open>updated\<close> compares
  \<open>pts\<close> with \<open>_good\<close> before it runs the gap check: on the untouched waiter, whose
  \<open>_good\<close> is 0, a first update with pts 0 (or -5) and count 1 is dropped and the waiter
  stays uninitialized.
\<close>

theorem first_update_dropped_counterexample:
  "\<not> inited fresh_waiter \<and> \<not> requesting fresh_waiter \<and> applySkippedLevel fresh_waiter = 0 \<and>
   updated_MTPUpdate example_env fresh_waiter 0 1 7 = (False, fresh_waiter) \<and>
   updateAndApply_MTPUpdate example_env fresh_waiter 0 1 7 = (False, fresh_waiter) \<and>
   updated example_env fresh_waiter (- 5) 1 = (False, fresh_waiter)"
  by code_simp

section \<open>C5: the gap check\<close>

lemma setWaitingForSkipped_arm:
  "0 <=s ms \<Longrightarrow>
   setWaitingForSkipped e s ms =
     s\<lparr>timer_log := timer_log s @ (if main_exists e then [ms] else []),
       waitingForSkipped := True\<rparr>"
  by (simp add: setWaitingForSkipped_def ptsWaiterStartTimerFor_def)

lemma check_inited:
  "inited s \<Longrightarrow>
   check e s pts cnt =
     (if qMax (last_v s) pts = count_v s + cnt
      then (True, s\<lparr>last_v := qMax (last_v s) pts, count_v := count_v s + cnt,
                     good := qMax (last_v s) pts\<rparr>)
      else (cnt = 0,
            setWaitingForSkipped e (s\<lparr>last_v := qMax (last_v s) pts, count_v := count_v s + cnt\<rparr>)
              (if qMax (last_v s) pts <s count_v s + cnt then 1 else WaitForSkippedTimeout e)))"
  by (simp add: check_def Let_def)

lemma sint_qMax: "sint (qMax a b) = max (sint a) (sint b)"
  by (simp add: qMax_def word_sless_alt max_def)

lemma check_eq_case:
  assumes "inited s" and "qMax (last_v s) pts = count_v s + cnt"
  shows "check e s pts cnt =
     (True, s\<lparr>last_v := qMax (last_v s) pts, count_v := count_v s + cnt,
                     good := qMax (last_v s) pts\<rparr>)"
  using assms by (simp add: check_inited)

lemma check_lt_case:
  assumes "inited s" and "qMax (last_v s) pts <s count_v s + cnt"
  shows "check e s pts cnt =
     (cnt = 0, s\<lparr>last_v := qMax (last_v s) pts, count_v := count_v s + cnt,
        timer_log := timer_log s @ (if main_exists e then [1] else []),
        waitingForSkipped := True\<rparr>)"
proof -
  from assms(2) have "qMax (last_v s) pts \<noteq> count_v s + cnt" by auto
  with assms show ?thesis
    by (simp add: check_inited setWaitingForSkipped_arm sle_0_1)
qed

lemma check_gt_case:
  assumes "inited s" and "count_v s + cnt <s qMax (last_v s) pts"
    and "0 <=s WaitForSkippedTimeout e"
  shows "check e s pts cnt =
     (cnt = 0, s\<lparr>last_v := qMax (last_v s) pts, count_v := count_v s + cnt,
        timer_log := timer_log s @ (if main_exists e then [WaitForSkippedTimeout e] else []),
        waitingForSkipped := True\<rparr>)"
proof -
  from assms(2) have "qMax (last_v s) pts \<noteq> count_v s + cnt"
    and "\<not> qMax (last_v s) pts <s count_v s + cnt"
    using signed.less_asym by auto
  with assms show ?thesis
    by (simp add: check_inited setWaitingForSkipped_arm)
qed

text \<open>
  C5: on an initialized state \<open>check\<close> sets \<open>_last\<close> to the signed maximum of \<open>_last\<close>
  and \<open>pts\<close> and adds \<open>count\<close> to \<open>_count\<close>. If the two are then equal it sets \<open>_good\<close>
  to \<open>_last\<close> and returns true, arming nothing. If \<open>_last < _count\<close> it arms the timer
  with delay 1, if \<open>_last > _count\<close> with \<open>WaitForSkippedTimeout\<close> (not negative); in both
  cases it sets \<open>_waitingForSkipped\<close>, leaves \<open>_good\<close>, and returns true exactly when
  \<open>count\<close> is 0.
\<close>

theorem check_gap_classification:
  assumes "inited s" and "0 <=s WaitForSkippedTimeout e"
  shows
   "sint (qMax (last_v s) pts) = max (sint (last_v s)) (sint pts) \<and>
    last_v (snd (check e s pts cnt)) = qMax (last_v s) pts \<and>
    count_v (snd (check e s pts cnt)) = count_v s + cnt \<and>
    queue (snd (check e s pts cnt)) = queue s \<and>
    api_log (snd (check e s pts cnt)) = api_log s \<and>
    (qMax (last_v s) pts = count_v s + cnt \<longrightarrow>
       fst (check e s pts cnt) \<and>
       good (snd (check e s pts cnt)) = qMax (last_v s) pts \<and>
       waitingForSkipped (snd (check e s pts cnt)) = waitingForSkipped s \<and>
       timer_log (snd (check e s pts cnt)) = timer_log s) \<and>
    (qMax (last_v s) pts <s count_v s + cnt \<longrightarrow>
       fst (check e s pts cnt) = (cnt = 0) \<and>
       good (snd (check e s pts cnt)) = good s \<and>
       waitingForSkipped (snd (check e s pts cnt)) \<and>
       timer_log (snd (check e s pts cnt)) = timer_log s @ (if main_exists e then [1] else [])) \<and>
    (count_v s + cnt <s qMax (last_v s) pts \<longrightarrow>
       fst (check e s pts cnt) = (cnt = 0) \<and>
       good (snd (check e s pts cnt)) = good s \<and>
       waitingForSkipped (snd (check e s pts cnt)) \<and>
       timer_log (snd (check e s pts cnt)) =
         timer_log s @ (if main_exists e then [WaitForSkippedTimeout e] else []))"
  (is "?M \<and> ?R")
proof -
  have m: ?M by (rule sint_qMax)
  consider (eq) "qMax (last_v s) pts = count_v s + cnt"
    | (lt) "qMax (last_v s) pts <s count_v s + cnt"
    | (gt) "count_v s + cnt <s qMax (last_v s) pts"
    using signed.less_linear by blast
  then have r: ?R
  proof cases
    case eq
    then have "\<not> qMax (last_v s) pts <s count_v s + cnt"
      and "\<not> count_v s + cnt <s qMax (last_v s) pts"
      by simp_all
    with eq show ?thesis
      by (simp add: check_eq_case [OF assms(1) eq])
  next
    case lt
    then have "qMax (last_v s) pts \<noteq> count_v s + cnt"
      and "\<not> count_v s + cnt <s qMax (last_v s) pts"
      using signed.less_asym by auto
    with lt show ?thesis
      by (simp add: check_lt_case [OF assms(1) lt])
  next
    case gt
    then have "qMax (last_v s) pts \<noteq> count_v s + cnt"
      and "\<not> qMax (last_v s) pts <s count_v s + cnt"
      using signed.less_asym by auto
    with gt show ?thesis
      by (simp add: check_gt_case [OF assms(1) gt assms(2)])
  qed
  from m r show ?thesis by (rule conjI)
qed

text \<open>
  The theorem at baseline 100: an update that closes the sequence (105, 5), one that
  leaves \<open>_last\<close> below \<open>_count\<close> (101, 5), one that jumps ahead (110, 5), and one
  with count 0 (200, 0).
\<close>

theorem check_gap_classification_witness:
  "inited synced_waiter \<and> 0 <=s WaitForSkippedTimeout example_env \<and>
   qMax (last_v synced_waiter) 105 = count_v synced_waiter + 5 \<and>
   check example_env synced_waiter 105 5 =
     (True, synced_waiter\<lparr>good := 105, last_v := 105, count_v := 105\<rparr>) \<and>
   qMax (last_v synced_waiter) 101 <s count_v synced_waiter + 5 \<and>
   check example_env synced_waiter 101 5 =
     (False, synced_waiter\<lparr>last_v := 101, count_v := 105, waitingForSkipped := True,
        timer_log := [1]\<rparr>) \<and>
   count_v synced_waiter + 5 <s qMax (last_v synced_waiter) 110 \<and>
   check example_env synced_waiter 110 5 =
     (False, synced_waiter\<lparr>last_v := 110, count_v := 105, waitingForSkipped := True,
        timer_log := [1000]\<rparr>) \<and>
   count_v synced_waiter + 0 <s qMax (last_v synced_waiter) 200 \<and>
   fst (check example_env synced_waiter 200 0)"
proof -
  have i: "inited synced_waiter" by code_simp
  have t: "0 <=s WaitForSkippedTimeout example_env" by code_simp
  have h: "qMax (last_v synced_waiter) 105 = count_v synced_waiter + 5"
    "qMax (last_v synced_waiter) 101 <s count_v synced_waiter + 5"
    "count_v synced_waiter + 5 <s qMax (last_v synced_waiter) 110"
    "count_v synced_waiter + 0 <s qMax (last_v synced_waiter) 200"
    by code_simp+
  have v: "check example_env synced_waiter 105 5 =
     (True, synced_waiter\<lparr>good := 105, last_v := 105, count_v := 105\<rparr>)"
    "check example_env synced_waiter 101 5 =
     (False, synced_waiter\<lparr>last_v := 101, count_v := 105, waitingForSkipped := True,
        timer_log := [1]\<rparr>)"
    "check example_env synced_waiter 110 5 =
     (False, synced_waiter\<lparr>last_v := 110, count_v := 105, waitingForSkipped := True,
        timer_log := [1000]\<rparr>)"
    by code_simp+
  show ?thesis
    using check_gap_classification [OF i t, of 200 0] i t h v by simp
qed

section \<open>Facts about the map and about what each operation leaves alone\<close>



lemma map_of_qmap_insert_other:
  "k' \<noteq> k \<Longrightarrow> map_of (qmap_insert k v m) k' = map_of m k'"
  by (induction m) auto

lemma set_qmap_insert_subset: "set (qmap_insert k v m) \<subseteq> insert (k, v) (set m)"
  by (induction m) (auto split: if_splits)


lemma insert_MTPUpdate_fields:
  "queue (insert_MTPUpdate s pts u) =
     qmap_insert (mk_key pts (skippedKey s + 1)) SkippedUpdate (queue s) \<and>
   updateQueue (insert_MTPUpdate s pts u) =
     qmap_insert (mk_key pts (skippedKey s + 1)) u (updateQueue s) \<and>
   updatesQueue (insert_MTPUpdate s pts u) = updatesQueue s \<and>
   skippedKey (insert_MTPUpdate s pts u) = skippedKey s + 1 \<and>
   good (insert_MTPUpdate s pts u) = good s \<and>
   last_v (insert_MTPUpdate s pts u) = last_v s \<and>
   count_v (insert_MTPUpdate s pts u) = count_v s \<and>
   initialized (insert_MTPUpdate s pts u) = initialized s \<and>
   requesting (insert_MTPUpdate s pts u) = requesting s \<and>
   applySkippedLevel (insert_MTPUpdate s pts u) = applySkippedLevel s \<and>
   waitingForSkipped (insert_MTPUpdate s pts u) = waitingForSkipped s \<and>
   waitingForShortPoll (insert_MTPUpdate s pts u) = waitingForShortPoll s \<and>
   api_log (insert_MTPUpdate s pts u) = api_log s \<and>
   timer_log (insert_MTPUpdate s pts u) = timer_log s"
  by (simp add: insert_MTPUpdate_def ptsKey_def Let_def)

lemma insert_MTPUpdates_fields:
  "queue (insert_MTPUpdates s pts us) =
     qmap_insert (mk_key pts (skippedKey s + 1)) SkippedUpdates (queue s) \<and>
   updateQueue (insert_MTPUpdates s pts us) = updateQueue s \<and>
   updatesQueue (insert_MTPUpdates s pts us) =
     qmap_insert (mk_key pts (skippedKey s + 1)) us (updatesQueue s) \<and>
   skippedKey (insert_MTPUpdates s pts us) = skippedKey s + 1 \<and>
   good (insert_MTPUpdates s pts us) = good s \<and>
   last_v (insert_MTPUpdates s pts us) = last_v s \<and>
   count_v (insert_MTPUpdates s pts us) = count_v s \<and>
   initialized (insert_MTPUpdates s pts us) = initialized s \<and>
   requesting (insert_MTPUpdates s pts us) = requesting s \<and>
   applySkippedLevel (insert_MTPUpdates s pts us) = applySkippedLevel s \<and>
   waitingForSkipped (insert_MTPUpdates s pts us) = waitingForSkipped s \<and>
   waitingForShortPoll (insert_MTPUpdates s pts us) = waitingForShortPoll s \<and>
   api_log (insert_MTPUpdates s pts us) = api_log s \<and>
   timer_log (insert_MTPUpdates s pts us) = timer_log s"
  by (simp add: insert_MTPUpdates_def ptsKey_def Let_def)

lemma setWaitingForSkipped_frame:
  "queue (setWaitingForSkipped e s ms) = queue s \<and>
   updateQueue (setWaitingForSkipped e s ms) = updateQueue s \<and>
   updatesQueue (setWaitingForSkipped e s ms) = updatesQueue s \<and>
   skippedKey (setWaitingForSkipped e s ms) = skippedKey s \<and>
   good (setWaitingForSkipped e s ms) = good s \<and>
   last_v (setWaitingForSkipped e s ms) = last_v s \<and>
   count_v (setWaitingForSkipped e s ms) = count_v s \<and>
   initialized (setWaitingForSkipped e s ms) = initialized s \<and>
   requesting (setWaitingForSkipped e s ms) = requesting s \<and>
   applySkippedLevel (setWaitingForSkipped e s ms) = applySkippedLevel s \<and>
   waitingForShortPoll (setWaitingForSkipped e s ms) = waitingForShortPoll s \<and>
   api_log (setWaitingForSkipped e s ms) = api_log s"
  by (simp add: setWaitingForSkipped_def checkForWaiting_def ptsWaiterStartTimerFor_def)

lemma setWaitingForShortPoll_frame:
  "queue (setWaitingForShortPoll e s ms) = queue s \<and>
   updateQueue (setWaitingForShortPoll e s ms) = updateQueue s \<and>
   updatesQueue (setWaitingForShortPoll e s ms) = updatesQueue s \<and>
   skippedKey (setWaitingForShortPoll e s ms) = skippedKey s \<and>
   good (setWaitingForShortPoll e s ms) = good s \<and>
   last_v (setWaitingForShortPoll e s ms) = last_v s \<and>
   count_v (setWaitingForShortPoll e s ms) = count_v s \<and>
   initialized (setWaitingForShortPoll e s ms) = initialized s \<and>
   requesting (setWaitingForShortPoll e s ms) = requesting s \<and>
   applySkippedLevel (setWaitingForShortPoll e s ms) = applySkippedLevel s \<and>
   waitingForSkipped (setWaitingForShortPoll e s ms) = waitingForSkipped s \<and>
   api_log (setWaitingForShortPoll e s ms) = api_log s"
  by (simp add: setWaitingForShortPoll_def checkForWaiting_def ptsWaiterStartTimerFor_def)

lemma check_frame:
  "queue (snd (check e s pts cnt)) = queue s \<and>
   updateQueue (snd (check e s pts cnt)) = updateQueue s \<and>
   updatesQueue (snd (check e s pts cnt)) = updatesQueue s \<and>
   skippedKey (snd (check e s pts cnt)) = skippedKey s \<and>
   requesting (snd (check e s pts cnt)) = requesting s \<and>
   applySkippedLevel (snd (check e s pts cnt)) = applySkippedLevel s \<and>
   waitingForShortPoll (snd (check e s pts cnt)) = waitingForShortPoll s \<and>
   api_log (snd (check e s pts cnt)) = api_log s"
proof (cases "inited s")
  case False
  then show ?thesis by (simp add: check_def init_def)
next
  case True
  then show ?thesis by (simp add: check_inited setWaitingForSkipped_frame)
qed

section \<open>Properties kept by every call\<close>

lemma updated_MTPUpdates_preserves:
  assumes "\<And>s pts cnt. P s \<Longrightarrow> P (snd (check e s pts cnt))"
    and "\<And>s pts us. P s \<Longrightarrow> P (insert_MTPUpdates s pts us)"
    and "P s"
  shows "P (snd (updated_MTPUpdates e s pts cnt us))"
proof -
  obtain ok s1 where c: "check e s pts cnt = (ok, s1)" by (cases "check e s pts cnt")
  from assms(1) [OF assms(3), of pts cnt] c have "P s1" by simp
  with assms(2,3) c show ?thesis by (simp add: updated_MTPUpdates_def)
qed

lemma updated_MTPUpdate_preserves:
  assumes "\<And>s pts cnt. P s \<Longrightarrow> P (snd (check e s pts cnt))"
    and "\<And>s pts u. P s \<Longrightarrow> P (insert_MTPUpdate s pts u)"
    and "P s"
  shows "P (snd (updated_MTPUpdate e s pts cnt u))"
proof -
  obtain ok s1 where c: "check e s pts cnt = (ok, s1)" by (cases "check e s pts cnt")
  from assms(1) [OF assms(3), of pts cnt] c have "P s1" by simp
  with assms(2,3) c show ?thesis by (simp add: updated_MTPUpdate_def)
qed

lemma updated_preserves:
  assumes "\<And>s pts cnt. P s \<Longrightarrow> P (snd (check e s pts cnt))"
    and "P s"
  shows "P (snd (updated e s pts cnt))"
  using assms by (simp add: updated_def)

lemma updateAndApply_MTPUpdates_preserves:
  assumes "\<And>s pts cnt. P s \<Longrightarrow> P (snd (check e s pts cnt))"
    and "\<And>s pts us. P s \<Longrightarrow> P (insert_MTPUpdates s pts us)"
    and "\<And>s. P s \<Longrightarrow> P (applySkippedUpdates e s)"
    and "\<And>s c. P s \<Longrightarrow> P (s\<lparr>api_log := api_log s @ [c]\<rparr>)"
    and "P s"
  shows "P (snd (updateAndApply_MTPUpdates e s pts cnt us))"
proof -
  obtain ok s1 where u: "updated_MTPUpdates e s pts cnt us = (ok, s1)"
    by (cases "updated_MTPUpdates e s pts cnt us")
  from updated_MTPUpdates_preserves [of P e s pts cnt us, OF assms(1,2,5)] u
  have "P s1" by simp
  with assms(2,3,4) u show ?thesis by (simp add: updateAndApply_MTPUpdates_def)
qed

lemma updateAndApply_MTPUpdate_preserves:
  assumes "\<And>s pts cnt. P s \<Longrightarrow> P (snd (check e s pts cnt))"
    and "\<And>s pts u. P s \<Longrightarrow> P (insert_MTPUpdate s pts u)"
    and "\<And>s. P s \<Longrightarrow> P (applySkippedUpdates e s)"
    and "\<And>s c. P s \<Longrightarrow> P (s\<lparr>api_log := api_log s @ [c]\<rparr>)"
    and "P s"
  shows "P (snd (updateAndApply_MTPUpdate e s pts cnt u))"
proof -
  obtain ok s1 where u: "updated_MTPUpdate e s pts cnt u = (ok, s1)"
    by (cases "updated_MTPUpdate e s pts cnt u")
  from updated_MTPUpdate_preserves [of P e s pts cnt u, OF assms(1,2,5)] u
  have "P s1" by simp
  with assms(2,3,4) u show ?thesis by (simp add: updateAndApply_MTPUpdate_def)
qed

lemma updateAndApply_preserves:
  assumes "\<And>s pts cnt. P s \<Longrightarrow> P (snd (check e s pts cnt))"
    and "\<And>s. P s \<Longrightarrow> P (applySkippedUpdates e s)"
    and "P s"
  shows "P (snd (updateAndApply e s pts cnt))"
proof -
  obtain ok s1 where u: "updated e s pts cnt = (ok, s1)"
    by (cases "updated e s pts cnt")
  from updated_preserves [of P e s pts cnt, OF assms(1,3)] u
  have "P s1" by simp
  with assms(2) u show ?thesis by (simp add: updateAndApply_def)
qed

text \<open>
  A property kept by the gap check, by the two buffering statements, by the flush, by a
  call to the applier, by the reset and by the two flag setters is kept by every call.
\<close>

lemma exec_preserves:
  assumes "\<And>s pts cnt. P s \<Longrightarrow> P (snd (check e s pts cnt))"
    and "\<And>s pts u. P s \<Longrightarrow> P (insert_MTPUpdate s pts u)"
    and "\<And>s pts us. P s \<Longrightarrow> P (insert_MTPUpdates s pts us)"
    and "\<And>s. P s \<Longrightarrow> P (applySkippedUpdates e s)"
    and "\<And>s c. P s \<Longrightarrow> P (s\<lparr>api_log := api_log s @ [c]\<rparr>)"
    and "\<And>s. P s \<Longrightarrow> P (clearSkippedUpdates s)"
    and "\<And>s ms. P s \<Longrightarrow> P (setWaitingForSkipped e s ms)"
    and "\<And>s ms. P s \<Longrightarrow> P (setWaitingForShortPoll e s ms)"
    and "P s"
  shows "P (exec e c s)"
proof (cases c)
  case (Updated_MTPUpdates pts cnt us)
  then show ?thesis
    using updated_MTPUpdates_preserves [of P e s pts cnt us, OF assms(1,3,9)] by simp
next
  case (Updated_MTPUpdate pts cnt u)
  then show ?thesis
    using updated_MTPUpdate_preserves [of P e s pts cnt u, OF assms(1,2,9)] by simp
next
  case (Updated pts cnt)
  then show ?thesis
    using updated_preserves [of P e s pts cnt, OF assms(1,9)] by simp
next
  case (UpdateAndApply_MTPUpdates pts cnt us)
  then show ?thesis
    using updateAndApply_MTPUpdates_preserves [of P e s pts cnt us, OF assms(1,3,4,5,9)] by simp
next
  case (UpdateAndApply_MTPUpdate pts cnt u)
  then show ?thesis
    using updateAndApply_MTPUpdate_preserves [of P e s pts cnt u, OF assms(1,2,4,5,9)] by simp
next
  case (UpdateAndApply pts cnt)
  then show ?thesis
    using updateAndApply_preserves [of P e s pts cnt, OF assms(1,4,9)] by simp
next
  case ApplySkippedUpdates
  then show ?thesis using assms(4,9) by simp
next
  case ClearSkippedUpdates
  then show ?thesis using assms(6,9) by simp
next
  case (SetWaitingForSkipped ms)
  then show ?thesis using assms(7,9) by simp
next
  case (SetWaitingForShortPoll ms)
  then show ?thesis using assms(8,9) by simp
qed

lemma run_preserves:
  assumes "\<And>s c. P s \<Longrightarrow> P (exec e c s)" and "P s"
  shows "P (run e cs s)"
  using assms(2)
proof (induction cs arbitrary: s)
  case Nil
  then show ?case by (simp add: run_def)
next
  case (Cons c cs)
  from assms(1) [OF Cons.prems] have "P (exec e c s)" .
  from Cons.IH [OF this] show ?case by (simp add: run_def)
qed

lemma applySkippedUpdates_queue:
  "queue (applySkippedUpdates e s) = (if waitingForSkipped s then [] else queue s)"
proof (cases "waitingForSkipped s")
  case False
  then show ?thesis by (simp add: applySkippedUpdates_idle)
next
  case True
  then show ?thesis
    by (cases "queue s = []")
      (simp_all add: applySkippedUpdates_empty applySkippedUpdates_drain setWaitingForSkipped_frame)
qed

lemma applySkippedUpdates_payload_queues:
  "queue (applySkippedUpdates e s) \<noteq> [] \<Longrightarrow>
   updateQueue (applySkippedUpdates e s) = updateQueue s \<and>
   updatesQueue (applySkippedUpdates e s) = updatesQueue s"
  by (cases "waitingForSkipped s") (simp_all add: applySkippedUpdates_queue applySkippedUpdates_idle)

subsection \<open>The queue stays in strictly ascending key order\<close>



subsection \<open>The watermark never passes the highest pts seen\<close>

lemma sle_qMax: "a <=s qMax a b"
  by (simp add: qMax_def signed.less_imp_le)

lemma check_watermarks:
  "inited s \<Longrightarrow>
   good (snd (check e s pts cnt)) =
     (if qMax (last_v s) pts = count_v s + cnt then qMax (last_v s) pts else good s) \<and>
   last_v (snd (check e s pts cnt)) = qMax (last_v s) pts \<and>
   count_v (snd (check e s pts cnt)) = count_v s + cnt \<and>
   initialized (snd (check e s pts cnt)) = initialized s"
  by (simp add: check_inited setWaitingForSkipped_frame)

lemma check_keeps_good_le_last:
  assumes "inited s \<longrightarrow> good s <=s last_v s"
  shows "inited (snd (check e s pts cnt)) \<longrightarrow>
         good (snd (check e s pts cnt)) <=s last_v (snd (check e s pts cnt))"
proof (cases "inited s")
  case False
  then show ?thesis by (simp add: check_def init_def inited_def)
next
  case True
  with assms have "good s <=s last_v s" by simp
  then have "good s <=s qMax (last_v s) pts"
    using sle_qMax [of "last_v s" pts] signed.order_trans by blast
  with True show ?thesis by (simp add: check_watermarks)
qed

lemma exec_keeps_good_le_last:
  assumes "inited s \<longrightarrow> good s <=s last_v s"
  shows "inited (exec e c s) \<longrightarrow> good (exec e c s) <=s last_v (exec e c s)"
proof (rule exec_preserves [where P = "\<lambda>s. inited s \<longrightarrow> good s <=s last_v s"])
  show "inited (snd (check e s pts cnt)) \<longrightarrow>
         good (snd (check e s pts cnt)) <=s last_v (snd (check e s pts cnt))"
    if "inited s \<longrightarrow> good s <=s last_v s" for s :: "('a, 'b) PtsWaiter" and pts cnt
    using that by (rule check_keeps_good_le_last)
qed (simp_all add: assms [unfolded inited_def] inited_def insert_MTPUpdate_fields insert_MTPUpdates_fields
      applySkippedUpdates_keeps_watermarks clearSkippedUpdates_def
      setWaitingForSkipped_frame setWaitingForShortPoll_frame)

section \<open>C9: the watermark and the highest pts seen\<close>

text \<open>
  C9: \<open>_good \<le> _last\<close> (as signed numbers) holds in every initialized state that any
  sequence of calls (the six ingest overloads, the flush, the reset and the two flag
  setters) reaches from a state that is uninitialized or satisfies it already.
\<close>

theorem confirmed_never_exceeds_lastSeen:
  assumes "inited s0 \<longrightarrow> good s0 <=s last_v s0"
  shows "inited (run e cs s0) \<longrightarrow> good (run e cs s0) <=s last_v (run e cs s0)"
  by (rule run_preserves [where P = "\<lambda>s. inited s \<longrightarrow> good s <=s last_v s"])
    (simp_all add: assms exec_keeps_good_le_last)

text \<open>
  The theorem on a history from the untouched waiter: after the first two calls the
  watermark is 100 and the highest pts 110; at the end both are 110.
\<close>

theorem confirmed_never_exceeds_lastSeen_witness:
  "\<not> inited fresh_waiter \<and>
   inited (run example_env gap_then_fill fresh_waiter) \<and>
   good (run example_env gap_then_fill fresh_waiter) = 110 \<and>
   last_v (run example_env gap_then_fill fresh_waiter) = 110 \<and>
   good (run example_env gap_then_fill fresh_waiter)
     <=s last_v (run example_env gap_then_fill fresh_waiter) \<and>
   inited (run example_env (take 2 gap_then_fill) fresh_waiter) \<and>
   good (run example_env (take 2 gap_then_fill) fresh_waiter) = 100 \<and>
   last_v (run example_env (take 2 gap_then_fill) fresh_waiter) = 110 \<and>
   good (run example_env (take 2 gap_then_fill) fresh_waiter)
     <=s last_v (run example_env (take 2 gap_then_fill) fresh_waiter)"
proof -
  have u: "\<not> inited fresh_waiter" by code_simp
  have i: "inited (run example_env gap_then_fill fresh_waiter)"
    "inited (run example_env (take 2 gap_then_fill) fresh_waiter)" by code_simp+
  have v: "good (run example_env gap_then_fill fresh_waiter) = 110"
    "last_v (run example_env gap_then_fill fresh_waiter) = 110"
    "good (run example_env (take 2 gap_then_fill) fresh_waiter) = 100"
    "last_v (run example_env (take 2 gap_then_fill) fresh_waiter) = 110"
    by code_simp+
  from u have a: "inited fresh_waiter \<longrightarrow> good fresh_waiter <=s last_v fresh_waiter" by simp
  from confirmed_never_exceeds_lastSeen [OF a, of example_env gap_then_fill] i(1)
  have b: "good (run example_env gap_then_fill fresh_waiter)
     <=s last_v (run example_env gap_then_fill fresh_waiter)" by blast
  from confirmed_never_exceeds_lastSeen [OF a, of example_env "take 2 gap_then_fill"] i(2)
  have c: "good (run example_env (take 2 gap_then_fill) fresh_waiter)
     <=s last_v (run example_env (take 2 gap_then_fill) fresh_waiter)" by blast
  from u i v b c show ?thesis by blast
qed

subsection \<open>Every entry of the queue has its payload\<close>

lemma insert_MTPUpdate_keeps_payloads:
  assumes "\<forall>i\<in>set (queue s). has_payload (entry_call s i)"
  shows "\<forall>i\<in>set (queue (insert_MTPUpdate s pts u)).
           has_payload (entry_call (insert_MTPUpdate s pts u) i)"
proof
  fix i
  let ?k = "mk_key pts (skippedKey s + 1)"
  let ?t = "insert_MTPUpdate s pts u"
  assume "i \<in> set (queue ?t)"
  then have "i = (?k, SkippedUpdate) \<or> i \<in> set (queue s)"
    using set_qmap_insert_subset [of ?k SkippedUpdate "queue s"]
    by (auto simp add: insert_MTPUpdate_fields)
  then show "has_payload (entry_call ?t i)"
  proof
    assume "i = (?k, SkippedUpdate)"
    then show ?thesis
      by (simp add: entry_call_def qmap_value_def insert_MTPUpdate_fields map_of_qmap_insert)
  next
    assume old: "i \<in> set (queue s)"
    with assms have p: "has_payload (entry_call s i)" by blast
    show ?thesis
    proof (cases "snd i")
      case SkippedUpdate
      with p show ?thesis
        by (cases "fst i = ?k")
          (simp_all add: entry_call_def qmap_value_def insert_MTPUpdate_fields
            map_of_qmap_insert map_of_qmap_insert_other)
    next
      case SkippedUpdates
      with p show ?thesis
        by (simp add: entry_call_def insert_MTPUpdate_fields)
    qed
  qed
qed

lemma insert_MTPUpdates_keeps_payloads:
  assumes "\<forall>i\<in>set (queue s). has_payload (entry_call s i)"
  shows "\<forall>i\<in>set (queue (insert_MTPUpdates s pts us)).
           has_payload (entry_call (insert_MTPUpdates s pts us) i)"
proof
  fix i
  let ?k = "mk_key pts (skippedKey s + 1)"
  let ?t = "insert_MTPUpdates s pts us"
  assume "i \<in> set (queue ?t)"
  then have "i = (?k, SkippedUpdates) \<or> i \<in> set (queue s)"
    using set_qmap_insert_subset [of ?k SkippedUpdates "queue s"]
    by (auto simp add: insert_MTPUpdates_fields)
  then show "has_payload (entry_call ?t i)"
  proof
    assume "i = (?k, SkippedUpdates)"
    then show ?thesis
      by (simp add: entry_call_def qmap_value_def insert_MTPUpdates_fields map_of_qmap_insert)
  next
    assume old: "i \<in> set (queue s)"
    with assms have p: "has_payload (entry_call s i)" by blast
    show ?thesis
    proof (cases "snd i")
      case SkippedUpdates
      with p show ?thesis
        by (cases "fst i = ?k")
          (simp_all add: entry_call_def qmap_value_def insert_MTPUpdates_fields
            map_of_qmap_insert map_of_qmap_insert_other)
    next
      case SkippedUpdate
      with p show ?thesis
        by (simp add: entry_call_def insert_MTPUpdates_fields)
    qed
  qed
qed

lemma same_queues_keep_payloads:
  assumes "\<forall>i\<in>set (queue s). has_payload (entry_call s i)"
    and "queue t = queue s" and "updateQueue t = updateQueue s"
    and "updatesQueue t = updatesQueue s"
  shows "\<forall>i\<in>set (queue t). has_payload (entry_call t i)"
  using assms entry_call_same_payloads [of t s] by simp

lemma applySkippedUpdates_keeps_payloads:
  assumes "\<forall>i\<in>set (queue s). has_payload (entry_call s i)"
  shows "\<forall>i\<in>set (queue (applySkippedUpdates e s)).
           has_payload (entry_call (applySkippedUpdates e s) i)"
proof (cases "waitingForSkipped s")
  case True
  then show ?thesis by (simp add: applySkippedUpdates_queue)
next
  case False
  with assms show ?thesis by (simp add: applySkippedUpdates_idle)
qed

lemma exec_keeps_payloads:
  assumes "\<forall>i\<in>set (queue s). has_payload (entry_call s i)"
  shows "\<forall>i\<in>set (queue (exec e c s)). has_payload (entry_call (exec e c s) i)"
proof (rule exec_preserves [where P = "\<lambda>s. \<forall>i\<in>set (queue s). has_payload (entry_call s i)"])
  show "\<forall>i\<in>set (queue s). has_payload (entry_call s i)" by (rule assms)
next
  fix s :: "('a, 'b) PtsWaiter" and pts cnt
  assume "\<forall>i\<in>set (queue s). has_payload (entry_call s i)"
  then show "\<forall>i\<in>set (queue (snd (check e s pts cnt))).
      has_payload (entry_call (snd (check e s pts cnt)) i)"
    by (rule same_queues_keep_payloads) (simp_all add: check_frame)
next
  fix s :: "('a, 'b) PtsWaiter" and c
  assume "\<forall>i\<in>set (queue s). has_payload (entry_call s i)"
  then show "\<forall>i\<in>set (queue (s\<lparr>api_log := api_log s @ [c]\<rparr>)).
      has_payload (entry_call (s\<lparr>api_log := api_log s @ [c]\<rparr>) i)"
    by (rule same_queues_keep_payloads) simp_all
next
  fix s :: "('a, 'b) PtsWaiter" and ms
  assume "\<forall>i\<in>set (queue s). has_payload (entry_call s i)"
  then show "\<forall>i\<in>set (queue (setWaitingForSkipped e s ms)).
      has_payload (entry_call (setWaitingForSkipped e s ms) i)"
    by (rule same_queues_keep_payloads) (simp_all add: setWaitingForSkipped_frame)
next
  fix s :: "('a, 'b) PtsWaiter" and ms
  assume "\<forall>i\<in>set (queue s). has_payload (entry_call s i)"
  then show "\<forall>i\<in>set (queue (setWaitingForShortPoll e s ms)).
      has_payload (entry_call (setWaitingForShortPoll e s ms) i)"
    by (rule same_queues_keep_payloads) (simp_all add: setWaitingForShortPoll_frame)
qed (simp_all add: insert_MTPUpdate_keeps_payloads insert_MTPUpdates_keeps_payloads
      applySkippedUpdates_keeps_payloads clearSkippedUpdates_def)

lemma run_keeps_payloads:
  assumes "\<forall>i\<in>set (queue s). has_payload (entry_call s i)"
  shows "\<forall>i\<in>set (queue (run e cs s)). has_payload (entry_call (run e cs s) i)"
  by (rule run_preserves [where P = "\<lambda>s. \<forall>i\<in>set (queue s). has_payload (entry_call s i)"])
    (simp_all add: assms exec_keeps_payloads)

subsection \<open>While something is buffered the gap flag is set\<close>

lemma check_sets_waiting:
  assumes "0 <=s WaitForSkippedTimeout e"
  shows "(waitingForSkipped s \<longrightarrow> waitingForSkipped (snd (check e s pts cnt))) \<and>
         (\<not> fst (check e s pts cnt) \<longrightarrow> waitingForSkipped (snd (check e s pts cnt)))"
proof (cases "inited s")
  case False
  then show ?thesis by (simp add: check_def init_def)
next
  case True
  consider (eq) "qMax (last_v s) pts = count_v s + cnt"
    | (lt) "qMax (last_v s) pts <s count_v s + cnt"
    | (gt) "count_v s + cnt <s qMax (last_v s) pts"
    using signed.less_linear by blast
  then show ?thesis
  proof cases
    case eq
    then show ?thesis by (simp add: check_eq_case [OF True eq])
  next
    case lt
    then show ?thesis by (simp add: check_lt_case [OF True lt])
  next
    case gt
    then show ?thesis by (simp add: check_gt_case [OF True gt assms])
  qed
qed

lemma updated_MTPUpdate_keeps_waiting:
  assumes "0 <=s WaitForSkippedTimeout e"
    and "queue s \<noteq> [] \<longrightarrow> waitingForSkipped s"
  shows "queue (snd (updated_MTPUpdate e s pts cnt u)) \<noteq> [] \<longrightarrow>
         waitingForSkipped (snd (updated_MTPUpdate e s pts cnt u))"
proof -
  obtain ok s1 where c: "check e s pts cnt = (ok, s1)" by (cases "check e s pts cnt")
  from check_sets_waiting [OF assms(1), of s pts cnt] c
  have w: "waitingForSkipped s \<longrightarrow> waitingForSkipped s1" "\<not> ok \<longrightarrow> waitingForSkipped s1"
    by simp_all
  from check_frame [of e s pts cnt] c have q: "queue s1 = queue s" by simp
  from assms(2) w q c show ?thesis
    by (simp add: updated_MTPUpdate_def insert_MTPUpdate_fields)
qed

lemma updated_MTPUpdates_keeps_waiting:
  assumes "0 <=s WaitForSkippedTimeout e"
    and "queue s \<noteq> [] \<longrightarrow> waitingForSkipped s"
  shows "queue (snd (updated_MTPUpdates e s pts cnt us)) \<noteq> [] \<longrightarrow>
         waitingForSkipped (snd (updated_MTPUpdates e s pts cnt us))"
proof -
  obtain ok s1 where c: "check e s pts cnt = (ok, s1)" by (cases "check e s pts cnt")
  from check_sets_waiting [OF assms(1), of s pts cnt] c
  have w: "waitingForSkipped s \<longrightarrow> waitingForSkipped s1" "\<not> ok \<longrightarrow> waitingForSkipped s1"
    by simp_all
  from check_frame [of e s pts cnt] c have q: "queue s1 = queue s" by simp
  from assms(2) w q c show ?thesis
    by (simp add: updated_MTPUpdates_def insert_MTPUpdates_fields)
qed

lemma updated_keeps_waiting:
  assumes "0 <=s WaitForSkippedTimeout e"
    and "queue s \<noteq> [] \<longrightarrow> waitingForSkipped s"
  shows "queue (snd (updated e s pts cnt)) \<noteq> [] \<longrightarrow>
         waitingForSkipped (snd (updated e s pts cnt))"
  using assms(2) check_sets_waiting [OF assms(1), of s pts cnt] check_frame [of e s pts cnt]
  by (simp add: updated_def)

lemma exec_keeps_waiting:
  assumes "0 <=s WaitForSkippedTimeout e" and "ingest_or_flush c"
    and "queue s \<noteq> [] \<longrightarrow> waitingForSkipped s"
  shows "queue (exec e c s) \<noteq> [] \<longrightarrow> waitingForSkipped (exec e c s)"
proof (cases c)
  case (Updated_MTPUpdates pts cnt us)
  then show ?thesis using updated_MTPUpdates_keeps_waiting [OF assms(1,3)] by simp
next
  case (Updated_MTPUpdate pts cnt u)
  then show ?thesis using updated_MTPUpdate_keeps_waiting [OF assms(1,3)] by simp
next
  case (Updated pts cnt)
  then show ?thesis using updated_keeps_waiting [OF assms(1,3)] by simp
next
  case (UpdateAndApply_MTPUpdates pts cnt us)
  obtain ok s1 where u: "updated_MTPUpdates e s pts cnt us = (ok, s1)"
    by (cases "updated_MTPUpdates e s pts cnt us")
  from updated_MTPUpdates_keeps_waiting [OF assms(1,3), of pts cnt us] u
  have "queue s1 \<noteq> [] \<longrightarrow> waitingForSkipped s1" by simp
  with u have "queue (snd (updateAndApply_MTPUpdates e s pts cnt us)) \<noteq> [] \<longrightarrow>
      waitingForSkipped (snd (updateAndApply_MTPUpdates e s pts cnt us))"
    by (simp add: updateAndApply_MTPUpdates_def applySkippedUpdates_queue
        insert_MTPUpdates_fields)
  with UpdateAndApply_MTPUpdates show ?thesis by simp
next
  case (UpdateAndApply_MTPUpdate pts cnt u')
  obtain ok s1 where u: "updated_MTPUpdate e s pts cnt u' = (ok, s1)"
    by (cases "updated_MTPUpdate e s pts cnt u'")
  from updated_MTPUpdate_keeps_waiting [OF assms(1,3), of pts cnt u'] u
  have "queue s1 \<noteq> [] \<longrightarrow> waitingForSkipped s1" by simp
  with u have "queue (snd (updateAndApply_MTPUpdate e s pts cnt u')) \<noteq> [] \<longrightarrow>
      waitingForSkipped (snd (updateAndApply_MTPUpdate e s pts cnt u'))"
    by (simp add: updateAndApply_MTPUpdate_def applySkippedUpdates_queue
        insert_MTPUpdate_fields)
  with UpdateAndApply_MTPUpdate show ?thesis by simp
next
  case (UpdateAndApply pts cnt)
  obtain ok s1 where u: "updated e s pts cnt = (ok, s1)"
    by (cases "updated e s pts cnt")
  from updated_keeps_waiting [OF assms(1,3), of pts cnt] u
  have "queue s1 \<noteq> [] \<longrightarrow> waitingForSkipped s1" by simp
  with u have "queue (snd (updateAndApply e s pts cnt)) \<noteq> [] \<longrightarrow>
      waitingForSkipped (snd (updateAndApply e s pts cnt))"
    by (auto simp add: updateAndApply_def applySkippedUpdates_queue)
  with UpdateAndApply show ?thesis by simp
next
  case ApplySkippedUpdates
  with assms(3) show ?thesis by (auto simp add: applySkippedUpdates_queue)
next
  case ClearSkippedUpdates
  with assms(2) show ?thesis by simp
next
  case (SetWaitingForSkipped ms)
  with assms(2) show ?thesis by simp
next
  case (SetWaitingForShortPoll ms)
  with assms(2) show ?thesis by simp
qed

lemma run_keeps_waiting:
  assumes "0 <=s WaitForSkippedTimeout e" and "list_all ingest_or_flush cs"
    and "queue s \<noteq> [] \<longrightarrow> waitingForSkipped s"
  shows "queue (run e cs s) \<noteq> [] \<longrightarrow> waitingForSkipped (run e cs s)"
  using assms(2,3)
proof (induction cs arbitrary: s)
  case Nil
  then show ?case by (simp add: run_def)
next
  case (Cons c cs)
  from Cons.prems have c: "ingest_or_flush c" and cs: "list_all ingest_or_flush cs" by simp_all
  from exec_keeps_waiting [OF assms(1) c Cons.prems(2)]
  have "queue (exec e c s) \<noteq> [] \<longrightarrow> waitingForSkipped (exec e c s)" .
  from Cons.IH [OF cs this] show ?case by (simp add: run_def)
qed

section \<open>C1: the flush leaves nothing behind\<close>

text \<open>
  C1: take any history of ingest calls (\<open>updated\<close>, \<open>updateAndApply\<close>) and flushes
  (\<open>applySkippedUpdates\<close>) from a state with nothing buffered, with a gap timeout that is
  not negative. If it ends with \<open>_good = _last\<close> and a queue that is not empty, the next
  flush empties the three queues and hands every entry of the queue to the applier, in
  the queue's order and each with the payload stored for it.
\<close>

theorem flush_empties_whole_queue:
  assumes "queue s0 = []"
    and "list_all ingest_or_flush cs"
    and "0 <=s WaitForSkippedTimeout e"
    and "queue (run e cs s0) \<noteq> []"
    and "good (run e cs s0) = last_v (run e cs s0)"
  shows "queue (applySkippedUpdates e (run e cs s0)) = [] \<and>
         updateQueue (applySkippedUpdates e (run e cs s0)) = [] \<and>
         updatesQueue (applySkippedUpdates e (run e cs s0)) = [] \<and>
         api_log (applySkippedUpdates e (run e cs s0)) =
           api_log (run e cs s0) @ map (entry_call (run e cs s0)) (queue (run e cs s0)) \<and>
         list_all has_payload (map (entry_call (run e cs s0)) (queue (run e cs s0)))"
proof -
  let ?s = "run e cs s0"
  from assms(1) have "queue s0 \<noteq> [] \<longrightarrow> waitingForSkipped s0" by simp
  from run_keeps_waiting [OF assms(3,2) this] assms(4)
  have w: "waitingForSkipped ?s" by simp
  from assms(1) have "\<forall>i\<in>set (queue s0). has_payload (entry_call s0 i)" by simp
  then have "\<forall>i\<in>set (queue ?s). has_payload (entry_call ?s i)"
    by (rule run_keeps_payloads)
  then have p: "list_all has_payload (map (entry_call ?s) (queue ?s))"
    by (simp add: list_all_iff)
  from w assms(4) p show ?thesis by (simp add: applySkippedUpdates_drain)
qed

text \<open>
  The theorem on a history from the untouched waiter: at its end the watermark and the
  highest pts are both 120 and two entries are buffered; the flush applies both, in key
  order, after the baseline update that was applied at once.
\<close>

theorem flush_empties_whole_queue_witness:
  "queue fresh_waiter = [] \<and> list_all ingest_or_flush gap_closed_history \<and>
   0 <=s WaitForSkippedTimeout example_env \<and>
   queue (run example_env gap_closed_history fresh_waiter) =
     [(mk_key 110 1, SkippedUpdate), (mk_key 120 2, SkippedUpdates)] \<and>
   good (run example_env gap_closed_history fresh_waiter) = 120 \<and>
   last_v (run example_env gap_closed_history fresh_waiter) = 120 \<and>
   queue (applySkippedUpdates example_env (run example_env gap_closed_history fresh_waiter)) = [] \<and>
   updateQueue (applySkippedUpdates example_env (run example_env gap_closed_history fresh_waiter)) = [] \<and>
   updatesQueue (applySkippedUpdates example_env (run example_env gap_closed_history fresh_waiter)) = [] \<and>
   api_log (applySkippedUpdates example_env (run example_env gap_closed_history fresh_waiter)) =
     [applyUpdateNoPtsCheck (Some 1), applyUpdateNoPtsCheck (Some 2),
      applyUpdatesNoPtsCheck (Some 3)]"
proof -
  let ?s = "run example_env gap_closed_history fresh_waiter"
  have a: "queue fresh_waiter = []" by code_simp
  have b: "list_all ingest_or_flush gap_closed_history" by code_simp
  have c: "0 <=s WaitForSkippedTimeout example_env" by code_simp
  have q: "queue ?s = [(mk_key 110 1, SkippedUpdate), (mk_key 120 2, SkippedUpdates)]"
    by code_simp
  have d: "queue ?s \<noteq> []" by (simp add: q)
  have g: "good ?s = 120" "last_v ?s = 120" by code_simp+
  have e: "good ?s = last_v ?s" by (simp add: g)
  have l: "api_log ?s @ map (entry_call ?s) (queue ?s) =
     [applyUpdateNoPtsCheck (Some 1), applyUpdateNoPtsCheck (Some 2),
      applyUpdatesNoPtsCheck (Some 3)]" by code_simp
  from flush_empties_whole_queue [OF a b c d e] l
  have r: "queue (applySkippedUpdates example_env ?s) = [] \<and>
   updateQueue (applySkippedUpdates example_env ?s) = [] \<and>
   updatesQueue (applySkippedUpdates example_env ?s) = [] \<and>
   api_log (applySkippedUpdates example_env ?s) =
     [applyUpdateNoPtsCheck (Some 1), applyUpdateNoPtsCheck (Some 2),
      applyUpdatesNoPtsCheck (Some 3)]" by simp
  from a b c q g r show ?thesis by (intro conjI) simp_all
qed

section \<open>C7: ingestion while a flush or a resync is under way\<close>




text \<open>
  All through a flush the gap flag is clear and the level is one above the level at
  entry, so a call that re-enters the waiter from the applier is absorbed, and
  \<open>updateAndApply\<close> takes its in-line branch.
\<close>

lemma flushing_waiter_is_flush_state:
  "flush_states example_env waiting_waiter = [flushing_waiter]"
  by code_simp

lemma during_flush_not_waiting:
  assumes "t \<in> set (flush_states e s)"
  shows "\<not> waitingForSkipped t \<and> applySkippedLevel t = applySkippedLevel s + 1 \<and>
         queue t = queue s \<and> queue s \<noteq> [] \<and> good t = good s \<and> last_v t = last_v s \<and> count_v t = count_v s"
proof -
  from assms have w: "waitingForSkipped s" and ne: "queue s \<noteq> []"
    by (auto simp add: flush_states_def setWaitingForSkipped_cancel Let_def split: if_splits)
  from assms w ne obtain n where
    "t = foldl apply_entry
           (s\<lparr>waitingForSkipped := False,
              timer_log := timer_log s @ (if \<not> waitingForShortPoll s \<and> main_exists e then [- 1] else []),
              applySkippedLevel := applySkippedLevel s + 1\<rparr>)
           (take n (queue s))"
    by (auto simp add: flush_states_def setWaitingForSkipped_cancel Let_def)
  then show ?thesis using ne by (simp add: foldl_apply_entry)
qed

section \<open>The packed key as a pair of numbers\<close>














section \<open>C3: the order in which a flush applies\<close>





section \<open>C6: unique keys and ties\<close>




end
